theory Spec2Isabelle
  imports Main "HOL-Library.Sublist"
begin

section \<open>EduGenie: the plan pipeline of \<^verbatim>\<open>tutor.py\<close>\<close>

text \<open>
  The development embeds the course search (\<^verbatim>\<open>search_courses\<close>), the LLM wrapper
  (\<^verbatim>\<open>GroqLLM._call\<close>) and the processing block of \<^verbatim>\<open>main\<close>. Python exceptions are
  values of a sum type, the two caches, the wall clock, the queries sent upstream and the
  messages shown to the user are fields of an explicit state, and the two remote services
  are parameters: functions that give, for each request, either the message of the
  exception they raise or their answer.

  A Python \<^verbatim>\<open>str\<close> is the list of its Unicode code points. \<^verbatim>\<open>str.strip\<close> is modelled
  with the full set of code points Python takes for white space. \<^verbatim>\<open>str.lower\<close> follows
  the interpreter's algorithm, and the tables of the Unicode database it reads (the full
  lower-case mapping and the properties Cased and Case_Ignorable) are a parameter.
\<close>

subsection \<open>Python strings\<close>

type_synonym ustr = "nat list"

text \<open>The \<^verbatim>\<open>str\<close> of an ASCII literal.\<close>

definition lit :: "string \<Rightarrow> ustr" where
  "lit s = map of_char s"

datatype error = UpstreamError ustr | ValueError ustr | IndexError ustr

fun str :: "error \<Rightarrow> ustr" where
  "str (UpstreamError m) = m"
| "str (ValueError m) = m"
| "str (IndexError m) = m"

text \<open>
  The tables of the Unicode database behind \<^verbatim>\<open>str.lower\<close>, by code point: the full
  lower-case mapping, which may give several code points, and the two properties the
  rule for the final sigma asks for.
\<close>

record unicode_db =
  ToLowerFull :: "nat \<Rightarrow> nat list"
  IsCased :: "nat \<Rightarrow> bool"
  IsCaseIgnorable :: "nat \<Rightarrow> bool"

text \<open>
  The capital sigma U+03A3 at a position is a final sigma when, case-ignorable code
  points skipped, a cased one stands before it and none stands after it. \<open>before\<close> is
  the text before the position, nearest code point first.
\<close>

definition final_sigma :: "unicode_db \<Rightarrow> ustr \<Rightarrow> ustr \<Rightarrow> bool" where
  "final_sigma db before after =
     ((case dropWhile (IsCaseIgnorable db) before of [] \<Rightarrow> False | c # _ \<Rightarrow> IsCased db c) \<and>
      (case dropWhile (IsCaseIgnorable db) after of [] \<Rightarrow> True | c # _ \<Rightarrow> \<not> IsCased db c))"

text \<open>
  The loop of \<^verbatim>\<open>str.lower\<close> over the code points: the capital sigma gives the final
  sigma U+03C2 or the small sigma U+03C3 by its context, every other code point its full
  lower-case mapping.
\<close>

fun lower_from :: "unicode_db \<Rightarrow> ustr \<Rightarrow> ustr \<Rightarrow> ustr" where
  "lower_from db before [] = []"
| "lower_from db before (c # cs) =
     (if c = 0x3A3 then [if final_sigma db before cs then 0x3C2 else 0x3C3]
      else ToLowerFull db c) @ lower_from db (c # before) cs"

text \<open>\<^verbatim>\<open>s.lower()\<close>\<close>

definition lower :: "unicode_db \<Rightarrow> ustr \<Rightarrow> ustr" where
  "lower db s = lower_from db [] s"

text \<open>
  White space as \<^verbatim>\<open>str.strip()\<close> sees it: tab to carriage return, the separators 28 to
  31, the space, U+0085, U+00A0, U+1680, U+2000 to U+200A, U+2028, U+2029, U+202F, U+205F
  and U+3000.
\<close>

definition is_space :: "nat \<Rightarrow> bool" where
  "is_space c =
     ((9 \<le> c \<and> c \<le> 13) \<or> (28 \<le> c \<and> c \<le> 32) \<or> c = 0x85 \<or> c = 0xA0 \<or> c = 0x1680 \<or>
      (0x2000 \<le> c \<and> c \<le> 0x200A) \<or> c = 0x2028 \<or> c = 0x2029 \<or> c = 0x202F \<or>
      c = 0x205F \<or> c = 0x3000)"

text \<open>\<^verbatim>\<open>s.strip()\<close>\<close>

definition strip :: "ustr \<Rightarrow> ustr" where
  "strip s = rev (dropWhile is_space (rev (dropWhile is_space s)))"

text \<open>\<^verbatim>\<open>sub in s\<close>\<close>

fun contains :: "ustr \<Rightarrow> ustr \<Rightarrow> bool" where
  "contains sub [] = (sub = [])"
| "contains sub (c # cs) = (prefix sub (c # cs) \<or> contains sub cs)"

text \<open>
  \<^verbatim>\<open>s.split(sep)\<close> scans from the left, cuts at each occurrence of \<^verbatim>\<open>sep\<close> and goes on
  behind it; \<open>cur\<close> is the piece being read. An empty separator raises \<^verbatim>\<open>ValueError\<close>.
\<close>

fun split_from :: "ustr \<Rightarrow> ustr \<Rightarrow> ustr \<Rightarrow> ustr list" where
  "split_from sep cur [] = [cur]"
| "split_from sep cur (c # cs) =
     (if sep \<noteq> [] \<and> prefix sep (c # cs)
      then cur # split_from sep [] (drop (length sep) (c # cs))
      else split_from sep (cur @ [c]) cs)"

definition split :: "ustr \<Rightarrow> ustr \<Rightarrow> error + ustr list" where
  "split s sep =
     (if sep = [] then Inl (ValueError (lit ''empty separator''))
      else Inr (split_from sep [] s))"

text \<open>\<^verbatim>\<open>sep.join(xs)\<close>\<close>

fun join :: "ustr \<Rightarrow> ustr list \<Rightarrow> ustr" where
  "join sep [] = []"
| "join sep [x] = x"
| "join sep (x # y # ys) = x @ sep @ join sep (y # ys)"

text \<open>\<^verbatim>\<open>xs[0]\<close>, which raises \<^verbatim>\<open>IndexError\<close> on the empty list.\<close>

definition first :: "'a list \<Rightarrow> error + 'a" where
  "first xs =
     (case xs of [] \<Rightarrow> Inl (IndexError (lit ''list index out of range'')) | x # _ \<Rightarrow> Inr x)"

text \<open>\<^verbatim>\<open>str(n)\<close> for a number of weeks.\<close>

definition digit :: "nat \<Rightarrow> nat" where
  "digit d = 48 + d"

function str_nat :: "nat \<Rightarrow> ustr" where
  "str_nat n = (if n < 10 then [digit n] else str_nat (n div 10) @ [digit (n mod 10)])"
  by pat_completeness auto
termination
  by (relation "measure (\<lambda>n. n)") auto

subsection \<open>Data\<close>

text \<open>
  One entry of \<^verbatim>\<open>search_result['results']\<close>: the code reads \<^verbatim>\<open>title\<close> and \<^verbatim>\<open>url\<close> by
  index and \<^verbatim>\<open>content\<close> with a default, so only the content may be missing.
\<close>

record raw_result =
  raw_title :: ustr
  raw_url :: ustr
  raw_content :: "ustr option"

text \<open>The dictionary appended to \<^verbatim>\<open>all_results\<close>.\<close>

record course =
  title :: ustr
  url :: ustr
  description :: ustr
  platform :: ustr
  rating :: ustr

text \<open>A week of the plan as \<^verbatim>\<open>main\<close> renders it: \<^verbatim>\<open>week_num\<close> and \<^verbatim>\<open>week_content\<close>.\<close>

record week_section =
  week_num :: ustr
  week_content :: ustr

text \<open>The four inputs of the form in \<^verbatim>\<open>main\<close>.\<close>

record plan_request =
  topic :: ustr
  duration :: nat
  learning_style :: ustr
  proficiency :: ustr

text \<open>What one generation cycle shows: the weeks and the courses.\<close>

record plan =
  weeks :: "week_section list"
  courses :: "course list"

text \<open>The arguments of \<^verbatim>\<open>client.chat.completions.create\<close>.\<close>

record completion_request =
  model :: ustr
  prompt :: ustr
  temperature :: nat
  max_tokens :: nat
  stop :: "ustr list option"

datatype message = Error ustr | Info ustr

text \<open>
  The search provider answers the \<open>n\<close>-th query (counted from 0 over the whole run) with
  the message of an exception or with its results; the LLM answers a request with the
  message of an exception or with the completion text.
\<close>

type_synonym upstream = "nat \<Rightarrow> ustr \<Rightarrow> ustr + raw_result list"

type_synonym llm = "completion_request \<Rightarrow> ustr + ustr"

text \<open>
  The state that outlives a call: \<^verbatim>\<open>st.session_state.search_cache\<close>, the store of the
  decorator \<^verbatim>\<open>st.cache_data\<close> (each value with the time it was stored at), the clock in
  seconds, the queries sent to the search provider (oldest first) and the messages of
  \<^verbatim>\<open>st.error\<close> and \<^verbatim>\<open>st.info\<close> (oldest first).
\<close>

record state =
  search_cache :: "ustr \<rightharpoonup> course list"
  data_cache :: "ustr \<rightharpoonup> nat \<times> course list"
  clock :: nat
  queries :: "ustr list"
  messages :: "message list"

subsection \<open>Course search\<close>

definition platforms :: "ustr list" where
  "platforms = [lit ''Udemy'', lit ''Coursera'', lit ''YouTube'']"

text \<open>The marker of the rating heuristic: five times the star U+2B50.\<close>

definition rating_marker :: ustr where
  "rating_marker = replicate 5 0x2B50"

definition rating_of :: "unicode_db \<Rightarrow> ustr \<Rightarrow> ustr" where
  "rating_of db t =
     (if contains (lit ''rating'') (lower db t) \<or> contains (lit ''stars'') (lower db t)
      then rating_marker else lit ''N/A'')"

text \<open>The body of the inner loop: one result of one platform.\<close>

definition make_course :: "unicode_db \<Rightarrow> ustr \<Rightarrow> raw_result \<Rightarrow> course" where
  "make_course db p r =
     \<lparr>title = lit ''['' @ p @ lit '']'' @ lit '' '' @ raw_title r,
      url = raw_url r,
      description =
        (case raw_content r of None \<Rightarrow> lit ''No description available'' | Some c \<Rightarrow> c),
      platform = p,
      rating = rating_of db (raw_title r)\<rparr>"

definition search_query :: "ustr \<Rightarrow> ustr \<Rightarrow> ustr" where
  "search_query p t = lit ''best '' @ p @ lit '' courses for learning '' @ t"

text \<open>
  The loop over the platforms. On an exception it stops with the message and with the
  value \<^verbatim>\<open>all_results\<close> has at that moment; the query is logged before the provider
  answers.
\<close>

fun search_platforms ::
  "unicode_db \<Rightarrow> upstream \<Rightarrow> ustr \<Rightarrow> ustr list \<Rightarrow> course list \<Rightarrow> state
     \<Rightarrow> (ustr \<times> course list + course list) \<times> state" where
  "search_platforms db up t [] all_results st = (Inr all_results, st)"
| "search_platforms db up t (p # ps) all_results st =
     (let q = search_query p t;
          st' = st\<lparr>queries := queries st @ [q]\<rparr>
      in case up (length (queries st)) q of
           Inl m \<Rightarrow> (Inl (m, all_results), st')
         | Inr results \<Rightarrow>
             search_platforms db up t ps (all_results @ map (make_course db p) results) st')"

definition cache_key :: "unicode_db \<Rightarrow> ustr \<Rightarrow> ustr" where
  "cache_key db t = lit ''search_'' @ lower db t"

text \<open>\<^verbatim>\<open>time.sleep(n)\<close>\<close>

definition sleep :: "nat \<Rightarrow> state \<Rightarrow> state" where
  "sleep n st = st\<lparr>clock := clock st + n\<rparr>"

definition show_message :: "message \<Rightarrow> state \<Rightarrow> state" where
  "show_message m st = st\<lparr>messages := messages st @ [m]\<rparr>"

text \<open>The function \<^verbatim>\<open>search_courses\<close> as written, without its decorator.\<close>

definition search_courses_body ::
  "unicode_db \<Rightarrow> upstream \<Rightarrow> ustr \<Rightarrow> state \<Rightarrow> course list \<times> state" where
  "search_courses_body db up t st =
     (case search_cache st (cache_key db t) of
        Some cached \<Rightarrow> (cached, st)
      | None \<Rightarrow>
          (case search_platforms db up t platforms [] st of
             (Inr all_results, st') \<Rightarrow>
               (all_results,
                st'\<lparr>search_cache := (search_cache st')(cache_key db t \<mapsto> all_results)\<rparr>)
           | (Inl (m, gathered), st') \<Rightarrow>
               ([], sleep 1
                      (show_message (Error (lit ''Error searching for courses: '' @ m)) st'))))"

text \<open>
  Modelled from the spec: the decorator \<^verbatim>\<open>st.cache_data(ttl=3600)\<close> belongs to the
  Streamlit library, which is not under src/. Following section 4.5 (an outer
  time-expiring cache, entries stale one hour after the wall-clock time of their
  insertion) it keeps, for each argument, the value the function returned and the time
  it returned at; a call finds an entry younger than \<open>ttl\<close> seconds and returns its value
  without running the function, or runs the function and stores what it returns. The key
  is the argument as passed, so it is case-sensitive.
\<close>

definition fresh :: "nat \<Rightarrow> nat \<Rightarrow> nat \<times> 'v \<Rightarrow> bool" where
  "fresh ttl now e = (now < fst e + ttl)"

definition cache_data ::
  "nat \<Rightarrow> (ustr \<Rightarrow> state \<Rightarrow> course list \<times> state) \<Rightarrow> ustr \<Rightarrow> state \<Rightarrow> course list \<times> state" where
  "cache_data ttl f arg st =
     (case data_cache st arg of
        Some e \<Rightarrow>
          if fresh ttl (clock st) e then (snd e, st)
          else (let (v, st') = f arg st
                in (v, st'\<lparr>data_cache := (data_cache st')(arg \<mapsto> (clock st', v))\<rparr>))
      | None \<Rightarrow>
          (let (v, st') = f arg st
           in (v, st'\<lparr>data_cache := (data_cache st')(arg \<mapsto> (clock st', v))\<rparr>)))"

text \<open>The decorated function, as every caller sees it.\<close>

definition search_courses ::
  "unicode_db \<Rightarrow> upstream \<Rightarrow> ustr \<Rightarrow> state \<Rightarrow> course list \<times> state" where
  "search_courses db up = cache_data 3600 (search_courses_body db up)"

text \<open>
  The topic has an entry of the outer cache that is inside its one-hour window at the
  current time.
\<close>

definition in_window :: "state \<Rightarrow> ustr \<Rightarrow> bool" where
  "in_window st t = (case data_cache st t of None \<Rightarrow> False | Some e \<Rightarrow> fresh 3600 (clock st) e)"

text \<open>Time passing between two calls.\<close>

definition advance :: "nat \<Rightarrow> state \<Rightarrow> state" where
  "advance d st = st\<lparr>clock := clock st + d\<rparr>"

text \<open>
  A call of \<^verbatim>\<open>search_courses\<close> gets past both caches and one of its upstream queries
  raises.
\<close>

definition query_raises :: "unicode_db \<Rightarrow> upstream \<Rightarrow> ustr \<Rightarrow> state \<Rightarrow> bool" where
  "query_raises db up t st =
     (\<not> in_window st t \<and> search_cache st (cache_key db t) = None \<and>
      isl (fst (search_platforms db up t platforms [] st)))"

text \<open>The value of \<^verbatim>\<open>all_results\<close> when the loop over the platforms ends or is left.\<close>

definition gathered_so_far :: "(ustr \<times> course list + course list) \<times> state \<Rightarrow> course list" where
  "gathered_so_far r = (case fst r of Inl (m, gathered) \<Rightarrow> gathered | Inr all_results \<Rightarrow> all_results)"

subsection \<open>The LLM wrapper\<close>

text \<open>
  \<^verbatim>\<open>GroqLLM._call\<close> with the class's fixed parameters: it shows the error and raises it
  again.
\<close>

definition groq_request :: "ustr \<Rightarrow> completion_request" where
  "groq_request p =
     \<lparr>model = lit ''llama-3.3-70b-specdec'', prompt = p, temperature = 1, max_tokens = 5096,
      stop = None\<rparr>"

definition GroqLLM_call :: "llm \<Rightarrow> ustr \<Rightarrow> state \<Rightarrow> (error + ustr) \<times> state" where
  "GroqLLM_call ask p st =
     (case ask (groq_request p) of
        Inr text \<Rightarrow> (Inr text, st)
      | Inl m \<Rightarrow>
          (Inl (UpstreamError m),
           show_message (Error (lit ''Error calling Groq API: '' @ m)) st))"

text \<open>\<^verbatim>\<open>TUTOR_PROMPT.format(...)\<close>\<close>

definition TUTOR_PROMPT :: "ustr \<Rightarrow> ustr \<Rightarrow> ustr \<Rightarrow> ustr \<Rightarrow> ustr" where
  "TUTOR_PROMPT topic_v duration_v learning_style_v proficiency_v =
     lit ''I want to learn '' @
     topic_v @
     lit '' from the world's best professional-YOU. You are the ultimate expert, the top authority in this field, and the best tutor anyone could ever learn from. No one can match your knowledge and expertise.\<newline>'' @
     lit ''\<newline>'' @
     lit ''Course Parameters:\<newline>'' @
     lit ''- Duration: '' @
     duration_v @
     lit '' weeks\<newline>'' @
     lit ''- Learning Style: '' @
     learning_style_v @
     lit ''\<newline>'' @
     lit ''- Current Proficiency: '' @
     proficiency_v @
     lit ''\<newline>'' @
     lit ''\<newline>'' @
     lit ''Teach me everything from basic to advanced, covering every minute detail in a structured and progressive manner, optimized for my '' @
     duration_v @
     lit ''-week timeline. Adapt the content to my '' @
     learning_style_v @
     lit '' learning style and '' @
     proficiency_v @
     lit '' proficiency level.\<newline>'' @
     lit ''\<newline>'' @
     lit ''For each week, create a structured lesson plan that includes:\<newline>'' @
     lit ''- **Weekly Goal**: A clear objective for what I should achieve by the end of the week.\<newline>'' @
     lit ''- **Topics to Cover**:  List the specific topics within '' @
     topic_v @
     lit '' that should be learned this week.\<newline>'' @
     lit ''- **Learning Resources**: Suggest specific resources like YouTube videos, Coursera courses, Udemy courses, documentation, or blog posts. Provide direct links if possible.\<newline>'' @
     lit ''- **Exercises**: Include 2-3 exercises to solidify my understanding of the week's topics. These should be practical exercises, coding challenges (if applicable to the topic), or questions that encourage critical thinking and application of the learned concepts.\<newline>'' @
     lit ''- **Cheat Sheet**: Briefly summarize the key terms, definitions, or formulas from that week's content in bullet points.\<newline>'' @
     lit ''\<newline>'' @
     lit ''Start with foundational concepts in Week 1 and progressively move to more advanced topics in subsequent weeks. Ensure the plan is suitable for a '' @
     duration_v @
     lit ''-week course and tailored to my '' @
     learning_style_v @
     lit '' learning style and '' @
     proficiency_v @
     lit '' proficiency level.\<newline>'' @
     lit ''\<newline>'' @
     lit ''Format each week's plan clearly with headings and bullet points for easy readability.\<newline>'' @
     lit ''\<newline>'' @
     lit ''Let's begin creating the '' @
     duration_v @
     lit ''-week learning plan for '' @
     topic_v @
     lit ''.''"

subsection \<open>The plan parser of \<^verbatim>\<open>main\<close>\<close>

text \<open>
  One pass of the loop over the sections: the week number is the text before the first
  colon, the content the stripped rest.
\<close>

definition parse_section :: "ustr \<Rightarrow> error + ustr \<times> ustr" where
  "parse_section section =
     (case split section (lit '':'') of
        Inl e \<Rightarrow> Inl e
      | Inr parts \<Rightarrow>
          (case first parts of
             Inl e \<Rightarrow> Inl e
           | Inr num \<Rightarrow> Inr (num, strip (join (lit '':'') (tl parts)))))"

fun render_sections :: "ustr list \<Rightarrow> error + week_section list" where
  "render_sections [] = Inr []"
| "render_sections (section # rest) =
     (case parse_section section of
        Inl e \<Rightarrow> Inl e
      | Inr (num, content) \<Rightarrow>
          (case render_sections rest of
             Inl e \<Rightarrow> Inl e
           | Inr ws \<Rightarrow>
               Inr (if content \<noteq> [] then \<lparr>week_num = num, week_content = content\<rparr> # ws
                    else ws)))"

text \<open>
  The sections \<^verbatim>\<open>main\<close> renders for a learning plan, in order:
  \<^verbatim>\<open>learning_plan.split("Week ")[1:]\<close>, each parsed, the empty ones skipped.
\<close>

definition week_sections :: "ustr \<Rightarrow> error + week_section list" where
  "week_sections learning_plan =
     (case split learning_plan (lit ''Week '') of
        Inl e \<Rightarrow> Inl e
      | Inr learning_plan_sections \<Rightarrow> render_sections (tl learning_plan_sections))"

subsection \<open>One generation cycle\<close>

text \<open>
  The \<^verbatim>\<open>try\<close> block of \<^verbatim>\<open>main\<close>: prompt, LLM call, sections, course search. The
  widgets it draws are left out; the result holds what they are drawn from.
\<close>

definition build_prompt :: "plan_request \<Rightarrow> ustr" where
  "build_prompt req =
     TUTOR_PROMPT (topic req) (str_nat (duration req)) (learning_style req) (proficiency req)"

definition generate_plan ::
  "unicode_db \<Rightarrow> llm \<Rightarrow> upstream \<Rightarrow> plan_request \<Rightarrow> state \<Rightarrow> (error + plan) \<times> state" where
  "generate_plan db ask up req st =
     (case GroqLLM_call ask (build_prompt req) st of
        (Inl e, st1) \<Rightarrow> (Inl e, st1)
      | (Inr learning_plan, st1) \<Rightarrow>
          (case week_sections learning_plan of
             Inl e \<Rightarrow> (Inl e, st1)
           | Inr ws \<Rightarrow>
               (case search_courses db up (topic req) st1 of
                  (cs, st2) \<Rightarrow>
                    (Inr \<lparr>weeks = ws, courses = cs\<rparr>,
                     if cs \<noteq> [] then st2
                     else show_message
                            (Info (lit ''No courses found at the moment. Try refining your search.''))
                            st2))))"

text \<open>\<^verbatim>\<open>main\<close> from the button on: the \<^verbatim>\<open>except\<close> clause shows the error.\<close>

definition main ::
  "unicode_db \<Rightarrow> llm \<Rightarrow> upstream \<Rightarrow> plan_request \<Rightarrow> bool \<Rightarrow> state \<Rightarrow> plan option \<times> state" where
  "main db ask up req generate_button st =
     (if topic req \<noteq> [] \<and> generate_button
      then (case generate_plan db ask up req st of
              (Inl e, st') \<Rightarrow>
                (None, show_message (Error (lit ''Error creating learning plan: '' @ str e)) st')
            | (Inr p, st') \<Rightarrow> (Some p, st'))
      else (None, st))"

subsection \<open>Letter case in the claims' words\<close>

text \<open>
  Two strings differ only in letter case: the same length, and at each position the same
  code point, or one that the lower-case table maps to the other.
\<close>

definition same_letter :: "unicode_db \<Rightarrow> nat \<Rightarrow> nat \<Rightarrow> bool" where
  "same_letter db c d = (c = d \<or> ToLowerFull db c = [d] \<or> ToLowerFull db d = [c])"

definition differ_in_case_only :: "unicode_db \<Rightarrow> ustr \<Rightarrow> ustr \<Rightarrow> bool" where
  "differ_in_case_only db a b = list_all2 (same_letter db) a b"



text \<open>Strings of ASCII code points, and what the Unicode tables say on that range.\<close>

definition is_ascii :: "ustr \<Rightarrow> bool" where
  "is_ascii s = list_all (\<lambda>c. c < 128) s"

definition ascii_lower :: "nat \<Rightarrow> nat" where
  "ascii_lower c = (if 65 \<le> c \<and> c \<le> 90 then c + 32 else c)"

definition ascii_db :: "unicode_db \<Rightarrow> bool" where
  "ascii_db db = list_all (\<lambda>c. ToLowerFull db c = [ascii_lower c]) [0..<128]"

subsection \<open>Inputs for the examples\<close>

text \<open>
  The Unicode tables on Basic Latin, on the Latin-1 Supplement and on the Greek letters
  U+0391 to U+03A9 and U+03B1 to U+03C9: among these the capital letters go to the code
  point 32 above them and every other code point to itself. The examples read no code
  point outside these ranges.
\<close>

definition sample_db :: unicode_db where
  "sample_db =
     \<lparr>ToLowerFull =
        (\<lambda>c. if (65 \<le> c \<and> c \<le> 90) \<or> (0xC0 \<le> c \<and> c \<le> 0xDE \<and> c \<noteq> 0xD7) \<or>
                 (0x391 \<le> c \<and> c \<le> 0x3A9 \<and> c \<noteq> 0x3A2)
              then [c + 32] else [c]),
      IsCased =
        (\<lambda>c. (65 \<le> c \<and> c \<le> 90) \<or> (97 \<le> c \<and> c \<le> 122) \<or> c = 0xAA \<or> c = 0xB5 \<or>
              c = 0xBA \<or> (0xC0 \<le> c \<and> c \<le> 0xD6) \<or> (0xD8 \<le> c \<and> c \<le> 0xF6) \<or>
              (0xF8 \<le> c \<and> c \<le> 0xFF) \<or> (0x391 \<le> c \<and> c \<le> 0x3A1) \<or>
              (0x3A3 \<le> c \<and> c \<le> 0x3A9) \<or> (0x3B1 \<le> c \<and> c \<le> 0x3C9)),
      IsCaseIgnorable =
        (\<lambda>c. c = 0x27 \<or> c = 0x2E \<or> c = 0x3A \<or> c = 0x5E \<or> c = 0x60 \<or> c = 0xA8 \<or>
              c = 0xAD \<or> c = 0xAF \<or> c = 0xB4 \<or> c = 0xB7 \<or> c = 0xB8)\<rparr>"





text \<open>The state of a new session: line 25 sets the session cache to the empty dictionary.\<close>

definition new_session :: state where
  "new_session =
     \<lparr>search_cache = Map.empty, data_cache = Map.empty, clock = 0, queries = [], messages = []\<rparr>"

definition sql_basics :: raw_result where
  "sql_basics =
     \<lparr>raw_title = lit ''SQL Basics'', raw_url = lit ''https://example.org/sql'',
      raw_content = None\<rparr>"

text \<open>A provider that answers every query with one result.\<close>

definition steady_upstream :: upstream where
  "steady_upstream n q = Inr [sql_basics]"

text \<open>A provider that answers the first query it gets and raises from then on.\<close>

definition limited_upstream :: upstream where
  "limited_upstream n q = (if n = 0 then Inr [sql_basics] else Inl (lit ''rate limit exceeded''))"

text \<open>A provider that raises on the first query it gets and answers from then on.\<close>

definition recovering_upstream :: upstream where
  "recovering_upstream n q = (if n = 0 then Inl (lit ''rate limit exceeded'') else Inr [sql_basics])"

text \<open>A provider that raises on every query.\<close>

definition failing_upstream :: upstream where
  "failing_upstream n q = Inl (lit ''service unavailable'')"

text \<open>An LLM that always answers with a plan of two weeks, and one that always raises.\<close>

definition steady_llm :: llm where
  "steady_llm r = Inr (lit ''Week 1: Goal A\<newline>Week 2: Goal B'')"

definition failing_llm :: llm where
  "failing_llm r = Inl (lit ''quota exceeded'')"



definition sql_request :: plan_request where
  "sql_request =
     \<lparr>topic = lit ''SQL'', duration = 4, learning_style = lit ''Visual'',
      proficiency = lit ''Complete Beginner''\<rparr>"

section \<open>Properties\<close>

subsection \<open>Strings\<close>

text \<open>\<open>contains\<close> is the substring test.\<close>

lemma contains_iff: "contains sub s \<longleftrightarrow> (\<exists>pre post. s = pre @ sub @ post)"
proof (induction s)
  case Nil
  then show ?case by auto
next
  case (Cons c cs)
  show ?case
  proof
    assume "contains sub (c # cs)"
    then consider "prefix sub (c # cs)" | "contains sub cs" by auto
    then show "\<exists>pre post. c # cs = pre @ sub @ post"
    proof cases
      case 1
      then obtain post where "c # cs = sub @ post" by (auto simp: prefix_def)
      then have "c # cs = [] @ sub @ post" by simp
      then show ?thesis by blast
    next
      case 2
      with Cons obtain pre post where "cs = pre @ sub @ post" by blast
      then have "c # cs = (c # pre) @ sub @ post" by simp
      then show ?thesis by blast
    qed
  next
    assume "\<exists>pre post. c # cs = pre @ sub @ post"
    then obtain pre post where e: "c # cs = pre @ sub @ post" by blast
    show "contains sub (c # cs)"
    proof (cases pre)
      case Nil
      with e have "prefix sub (c # cs)" by (simp add: prefix_def)
      then show ?thesis by simp
    next
      case (Cons p ps)
      with e have "cs = ps @ sub @ post" by simp
      with Cons.IH have "contains sub cs" by blast
      then show ?thesis by simp
    qed
  qed
qed

text \<open>An occurrence in a mapped string comes from a piece of the string.\<close>

lemma contains_map:
  assumes "contains w (map f t)"
  shows "\<exists>v. contains v t \<and> map f v = w"
proof -
  from assms obtain pre post where "map f t = pre @ (w @ post)"
    by (auto simp: contains_iff)
  then have "\<exists>us vs. t = us @ vs \<and> pre = map f us \<and> w @ post = map f vs"
    by (simp only: map_eq_append_conv)
  then obtain t1 t2 where t: "t = t1 @ t2" and t2: "w @ post = map f t2" by blast
  from t2[symmetric] have "\<exists>us vs. t2 = us @ vs \<and> w = map f us \<and> post = map f vs"
    by (simp only: map_eq_append_conv)
  then obtain v t3 where t3: "t2 = v @ t3" and v: "w = map f v" by blast
  from t t3 have "t = t1 @ v @ t3" by simp
  then have "contains v t" unfolding contains_iff by blast
  with v show ?thesis by blast
qed

text \<open>Without an occurrence of the separator the split is the string itself.\<close>

lemma split_from_absent:
  "\<not> contains sep s \<Longrightarrow> split_from sep cur s = [cur @ s]"
  by (induction s arbitrary: cur) auto

lemma split_from_nonempty: "split_from sep cur s \<noteq> []"
  by (induction sep cur s rule: split_from.induct) auto

text \<open>A stripped string starts with no white space, so stripping it again changes nothing.\<close>

lemma dropWhile_strip: "dropWhile is_space (strip s) = strip s"
proof (cases "strip s = []")
  case True
  then show ?thesis by simp
next
  case False
  define r where "r = dropWhile is_space s"
  have s: "strip s = rev (dropWhile is_space (rev r))" by (simp add: strip_def r_def)
  with False have ne: "dropWhile is_space (rev r) \<noteq> []" by simp
  then have rne: "r \<noteq> []" by auto
  have "hd (strip s) = last (dropWhile is_space (rev r))" using s ne by (simp add: hd_rev)
  also have "\<dots> = last (rev r)"
    using ne last_appendR[of "dropWhile is_space (rev r)" "takeWhile is_space (rev r)"]
    by simp
  also have "\<dots> = hd r" using rne by (simp add: last_rev)
  finally have "hd (strip s) = hd r" .
  moreover have "\<not> is_space (hd r)" using rne unfolding r_def by (rule hd_dropWhile)
  ultimately show ?thesis using False by (simp add: dropWhile_eq_self_iff)
qed

lemma strip_strip: "strip (strip s) = strip s"
proof -
  have "dropWhile is_space (rev (strip s)) = rev (strip s)" by (simp add: strip_def)
  then show ?thesis using dropWhile_strip[of s] strip_def[of "strip s"] by simp
qed

lemma lit_nonempty: "lit (c # cs) \<noteq> []"
  by (simp add: lit_def)

subsection \<open>The plan parser\<close>

text \<open>
  Neither \<^verbatim>\<open>split\<close> with a literal separator nor the index 0 into its result can raise,
  so the parser returns for every text, and what it keeps is stripped and not empty.
\<close>

lemma parse_section_Inr:
  "\<exists>num rest. parse_section s = Inr (num, strip rest)"
  using split_from_nonempty[of "lit '':''" "[]" s]
  by (auto simp: parse_section_def split_def first_def lit_nonempty split: list.splits)

lemma render_sections_Inr:
  "\<exists>ws. render_sections xs = Inr ws \<and>
        (\<forall>w\<in>set ws. week_content w \<noteq> [] \<and> strip (week_content w) = week_content w)"
proof (induction xs)
  case Nil
  then show ?case by simp
next
  case (Cons x xs)
  obtain num rest where p: "parse_section x = Inr (num, strip rest)"
    using parse_section_Inr by blast
  from Cons obtain ws where ws: "render_sections xs = Inr ws"
    and inv: "\<forall>w\<in>set ws. week_content w \<noteq> [] \<and> strip (week_content w) = week_content w"
    by blast
  show ?case using p ws inv by (simp add: strip_strip)
qed

lemma week_sections_Inr:
  "\<exists>ws. week_sections s = Inr ws \<and>
        (\<forall>w\<in>set ws. week_content w \<noteq> [] \<and> strip (week_content w) = week_content w)"
  using render_sections_Inr[of "tl (split_from (lit ''Week '') [] s)"]
  by (simp add: week_sections_def split_def lit_nonempty)

text \<open>
  C6. Parsing \<^verbatim>\<open>"Week 1: Goal A\nWeek 2: Goal B"\<close> gives exactly two sections, in order:
  week 1 with content \<^verbatim>\<open>Goal A\<close>, then week 2 with content \<^verbatim>\<open>Goal B\<close>, the contents
  without the white space around them.
\<close>

theorem C6_two_weeks:
  "week_sections (lit ''Week 1: Goal A\<newline>Week 2: Goal B'') =
     Inr [\<lparr>week_num = lit ''1'', week_content = lit ''Goal A''\<rparr>,
          \<lparr>week_num = lit ''2'', week_content = lit ''Goal B''\<rparr>]"
  by (simp add: week_sections_def split_def lit_def parse_section_def first_def strip_def
      is_space_def)

text \<open>
  C7. For a text in which \<^verbatim>\<open>"Week "\<close> does not occur the parser returns the empty list
  of sections, and returns it as a result, not as an error.
\<close>

theorem C7_no_marker: "\<not> contains (lit ''Week '') s \<Longrightarrow> week_sections s = Inr []"
  by (simp add: week_sections_def split_def split_from_absent lit_nonempty)

theorem C7_no_marker_witness:
  "\<not> contains (lit ''Week '') (lit ''Learn SQL in a weekend'') \<and>
   week_sections (lit ''Learn SQL in a weekend'') = Inr []"
proof -
  have h: "\<not> contains (lit ''Week '') (lit ''Learn SQL in a weekend'')"
    by (simp add: lit_def)
  show ?thesis using h C7_no_marker[OF h] by simp
qed

text \<open>
  C8. For every text, each section the parser produces has a content that is stripped and
  not empty: a segment whose stripped content is empty is dropped. In particular
  \<^verbatim>\<open>"Week 1:\nWeek 2: Content"\<close> gives exactly one section, the one of week 2, and so
  does the same text with a no-break space U+00A0 and an ideographic space U+3000 after
  the first colon.
\<close>

theorem C8_content_nonempty:
  "(\<exists>ws. week_sections s = Inr ws \<and>
      (\<forall>w\<in>set ws. week_content w \<noteq> [] \<and> strip (week_content w) = week_content w)) \<and>
   week_sections (lit ''Week 1:\<newline>Week 2: Content'') =
     Inr [\<lparr>week_num = lit ''2'', week_content = lit ''Content''\<rparr>] \<and>
   week_sections (lit ''Week 1:'' @ [0xA0, 0x3000, 10] @ lit ''Week 2: Content'') =
     Inr [\<lparr>week_num = lit ''2'', week_content = lit ''Content''\<rparr>]"
proof (intro conjI)
  show "\<exists>ws. week_sections s = Inr ws \<and>
      (\<forall>w\<in>set ws. week_content w \<noteq> [] \<and> strip (week_content w) = week_content w)"
    by (rule week_sections_Inr)
  show "week_sections (lit ''Week 1:\<newline>Week 2: Content'') =
     Inr [\<lparr>week_num = lit ''2'', week_content = lit ''Content''\<rparr>]"
    by (simp add: week_sections_def split_def lit_def parse_section_def first_def strip_def
      is_space_def)
  show "week_sections (lit ''Week 1:'' @ [0xA0, 0x3000, 10] @ lit ''Week 2: Content'') =
     Inr [\<lparr>week_num = lit ''2'', week_content = lit ''Content''\<rparr>]"
    by (simp add: week_sections_def split_def lit_def parse_section_def first_def strip_def
      is_space_def)
qed

theorem C8_content_nonempty_witness:
  "week_sections (lit ''Week 1:\<newline>Week 2: Content'') =
     Inr [\<lparr>week_num = lit ''2'', week_content = lit ''Content''\<rparr>] \<and>
   lit ''Content'' \<noteq> [] \<and> strip (lit ''Content'') = lit ''Content''"
  using C8_content_nonempty[of "lit ''Week 1:\<newline>Week 2: Content''"] by auto

subsection \<open>Letter case\<close>

text \<open>
  On ASCII strings \<^verbatim>\<open>lower\<close> is the map that moves A to Z by 32, whatever stands
  before; and an ASCII piece inside any string is lower-cased in place.
\<close>

lemma ascii_db_lookup: "ascii_db db \<Longrightarrow> c < 128 \<Longrightarrow> ToLowerFull db c = [ascii_lower c]"
  by (simp add: ascii_db_def list_all_iff)

lemma lower_from_ascii:
  "ascii_db db \<Longrightarrow> is_ascii s \<Longrightarrow> lower_from db before s = map ascii_lower s"
proof (induction s arbitrary: before)
  case Nil
  then show ?case by simp
next
  case (Cons c cs)
  then have c: "c < 128" and cs: "is_ascii cs" by (simp_all add: is_ascii_def)
  from c have "c \<noteq> 0x3A3" by simp
  with Cons.IH[OF Cons.prems(1) cs] ascii_db_lookup[OF Cons.prems(1) c]
  show ?case by simp
qed

lemma lower_ascii: "ascii_db db \<Longrightarrow> is_ascii s \<Longrightarrow> lower db s = map ascii_lower s"
  by (simp add: lower_def lower_from_ascii)

lemma lower_from_ascii_piece:
  assumes "ascii_db db" and "is_ascii v"
  shows "\<exists>X Y. lower_from db before (pre @ v @ post) = X @ map ascii_lower v @ Y"
proof -
  have head: "\<exists>Y. lower_from db b (w @ post) = map ascii_lower w @ Y" if "is_ascii w" for b w
    using that
  proof (induction w arbitrary: b)
    case Nil
    then show ?case by simp
  next
    case (Cons c cs)
    then have c: "c < 128" and cs: "is_ascii cs" by (simp_all add: is_ascii_def)
    from c have n: "c \<noteq> 0x3A3" by simp
    from Cons.IH[OF cs] obtain Y where "lower_from db (c # b) (cs @ post) = map ascii_lower cs @ Y"
      by blast
    with n ascii_db_lookup[OF assms(1) c] show ?case by simp
  qed
  show ?thesis
  proof (induction pre arbitrary: before)
    case Nil
    from head[OF assms(2)] obtain Y where "lower_from db before (v @ post) = map ascii_lower v @ Y"
      by blast
    then have "lower_from db before ([] @ v @ post) = [] @ map ascii_lower v @ Y" by simp
    then show ?case by blast
  next
    case (Cons p ps)
    from Cons.IH obtain X Y where
      e: "lower_from db (p # before) (ps @ v @ post) = X @ map ascii_lower v @ Y"
      by blast
    have "lower_from db before ((p # ps) @ v @ post) =
            ((if p = 0x3A3 then [if final_sigma db before (ps @ v @ post) then 0x3C2 else 0x3C3]
              else ToLowerFull db p) @ X) @ map ascii_lower v @ Y"
      using e by simp
    then show ?case by blast
  qed
qed

text \<open>
  When two ASCII strings differ only in letter case, each is mapped to the same string;
  and an ASCII string differs only in letter case from its lower-cased form.
\<close>

lemma ascii_lower_idem: "ascii_lower (ascii_lower c) = ascii_lower c"
  by (simp add: ascii_lower_def)

lemma ascii_lower_less: "c < 128 \<Longrightarrow> ascii_lower c < 128"
  by (simp add: ascii_lower_def)

lemma same_letter_ascii:
  assumes "ascii_db db" and "c < 128" and "d < 128" and "same_letter db c d"
  shows "ascii_lower c = ascii_lower d"
  using assms(4) ascii_db_lookup[OF assms(1,2)] ascii_db_lookup[OF assms(1,3)]
  by (auto simp: same_letter_def ascii_lower_idem)

lemma case_variants_ascii:
  assumes "ascii_db db"
  shows "differ_in_case_only db a b \<Longrightarrow> is_ascii a \<Longrightarrow> is_ascii b \<Longrightarrow>
         map ascii_lower a = map ascii_lower b"
  unfolding differ_in_case_only_def is_ascii_def
  by (induction a b rule: list_all2_induct) (auto dest: same_letter_ascii[OF assms])

lemma case_variant_of_lower:
  assumes "ascii_db db"
  shows "is_ascii v \<Longrightarrow> differ_in_case_only db v (map ascii_lower v)"
proof (induction v)
  case Nil
  then show ?case by (simp add: differ_in_case_only_def)
next
  case (Cons c cs)
  then have c: "c < 128" and cs: "is_ascii cs" by (simp_all add: is_ascii_def)
  have "same_letter db c (ascii_lower c)"
    using ascii_db_lookup[OF assms c] by (simp add: same_letter_def)
  with Cons.IH[OF cs] show ?case by (simp add: differ_in_case_only_def)
qed

lemma is_ascii_piece: "is_ascii t \<Longrightarrow> contains v t \<Longrightarrow> is_ascii v"
  by (auto simp: contains_iff is_ascii_def)




subsection \<open>The rating heuristic\<close>

lemma marker_not_na: "rating_marker \<noteq> lit ''N/A''"
proof
  assume "rating_marker = lit ''N/A''"
  then have "length rating_marker = length (lit ''N/A'')" by simp
  then show False by (simp add: rating_marker_def lit_def)
qed

lemma rating_of_ascii:
  "ascii_db db \<Longrightarrow> is_ascii t \<Longrightarrow>
   rating_of db t =
     (if contains (lit ''rating'') (map ascii_lower t) \<or>
         contains (lit ''stars'') (map ascii_lower t)
      then rating_marker else lit ''N/A'')"
  by (simp add: rating_of_def lower_ascii)

lemma rating_words:
  "is_ascii (lit ''rating'')" "is_ascii (lit ''stars'')"
  "map ascii_lower (lit ''rating'') = lit ''rating''"
  "map ascii_lower (lit ''stars'') = lit ''stars''"
  by (simp_all add: is_ascii_def lit_def ascii_lower_def)

text \<open>A title with a piece that differs from the word only in letter case has the word in its lower-cased form.\<close>

lemma word_in_lower:
  assumes "ascii_db db" and "contains v t" and "is_ascii v" and "is_ascii w"
    and "map ascii_lower w = w" and "differ_in_case_only db v w"
  shows "contains w (lower db t)"
proof -
  from assms(2) obtain pre post where t: "t = pre @ v @ post" by (auto simp: contains_iff)
  from case_variants_ascii[OF assms(1,6,3,4)] assms(5) have v: "map ascii_lower v = w" by simp
  from lower_from_ascii_piece[OF assms(1,3)] obtain X Y where
    "lower_from db [] (pre @ v @ post) = X @ map ascii_lower v @ Y" by blast
  with t v have "lower db t = X @ w @ Y" by (simp add: lower_def)
  then show ?thesis unfolding contains_iff by blast
qed

text \<open>In an ASCII title the word found in the lower-cased form comes from such a piece.\<close>

lemma word_from_piece:
  assumes "ascii_db db" and "is_ascii t" and "contains w (lower db t)"
  shows "\<exists>v. contains v t \<and> is_ascii v \<and> differ_in_case_only db v w"
proof -
  from assms have "contains w (map ascii_lower t)" by (simp add: lower_ascii)
  from contains_map[OF this] obtain v where v: "contains v t" and m: "map ascii_lower v = w"
    by blast
  from is_ascii_piece[OF assms(2) v] have a: "is_ascii v" .
  from case_variant_of_lower[OF assms(1) a] m have "differ_in_case_only db v w" by simp
  with v a show ?thesis by blast
qed

text \<open>
  C9. For every raw result the rating of the course built from it is the five-star marker
  exactly when the lower-cased title contains \<^verbatim>\<open>rating\<close> or \<^verbatim>\<open>stars\<close>, and \<^verbatim>\<open>N/A\<close>
  exactly when it contains neither; no third value occurs. The match is case-insensitive:
  every title with an ASCII piece that differs from one of the two words only in letter
  case gets the marker, and an ASCII title gets the marker only if it has such a piece.
  The titles \<^verbatim>\<open>Python: 5-star rating\<close>, \<^verbatim>\<open>TOP RATING\<close> and \<^verbatim>\<open>Five Stars\<close> get the
  marker, the titles \<^verbatim>\<open>The Complete Guide\<close> and \<^verbatim>\<open>5-star course\<close> get \<^verbatim>\<open>N/A\<close>.
\<close>

theorem C9_rating:
  assumes "ascii_db db"
  shows
  "(rating (make_course db p r) = rating_marker) =
     (contains (lit ''rating'') (lower db (raw_title r)) \<or>
      contains (lit ''stars'') (lower db (raw_title r))) \<and>
   (rating (make_course db p r) = lit ''N/A'') =
     (\<not> (contains (lit ''rating'') (lower db (raw_title r)) \<or>
         contains (lit ''stars'') (lower db (raw_title r)))) \<and>
   (rating (make_course db p r) = rating_marker \<or> rating (make_course db p r) = lit ''N/A'') \<and>
   (\<forall>v. contains v (raw_title r) \<and> is_ascii v \<and>
        (differ_in_case_only db v (lit ''rating'') \<or> differ_in_case_only db v (lit ''stars''))
        \<longrightarrow> rating (make_course db p r) = rating_marker) \<and>
   (is_ascii (raw_title r) \<and> rating (make_course db p r) = rating_marker \<longrightarrow>
      (\<exists>v. contains v (raw_title r) \<and> is_ascii v \<and>
           (differ_in_case_only db v (lit ''rating'') \<or>
            differ_in_case_only db v (lit ''stars'')))) \<and>
   rating (make_course db p
      \<lparr>raw_title = lit ''Python: 5-star rating'', raw_url = l, raw_content = c\<rparr>) =
     rating_marker \<and>
   rating (make_course db p \<lparr>raw_title = lit ''TOP RATING'', raw_url = l, raw_content = c\<rparr>) =
     rating_marker \<and>
   rating (make_course db p \<lparr>raw_title = lit ''Five Stars'', raw_url = l, raw_content = c\<rparr>) =
     rating_marker \<and>
   rating (make_course db p
      \<lparr>raw_title = lit ''The Complete Guide'', raw_url = l, raw_content = c\<rparr>) =
     lit ''N/A'' \<and>
   rating (make_course db p \<lparr>raw_title = lit ''5-star course'', raw_url = l, raw_content = c\<rparr>) =
     lit ''N/A''"
proof -
  have r: "rating (make_course db p x) = rating_of db (raw_title x)" for x
    by (simp add: make_course_def)
  have 1: "(rating (make_course db p r) = rating_marker) =
     (contains (lit ''rating'') (lower db (raw_title r)) \<or>
      contains (lit ''stars'') (lower db (raw_title r)))"
    using marker_not_na by (simp add: r rating_of_def)
  have 2: "(rating (make_course db p r) = lit ''N/A'') =
     (\<not> (contains (lit ''rating'') (lower db (raw_title r)) \<or>
         contains (lit ''stars'') (lower db (raw_title r))))"
    using marker_not_na by (simp add: r rating_of_def)
  have 3: "rating (make_course db p r) = rating_marker \<or> rating (make_course db p r) = lit ''N/A''"
    by (simp add: r rating_of_def)
  have 4: "\<forall>v. contains v (raw_title r) \<and> is_ascii v \<and>
        (differ_in_case_only db v (lit ''rating'') \<or> differ_in_case_only db v (lit ''stars''))
        \<longrightarrow> rating (make_course db p r) = rating_marker"
    using word_in_lower[OF assms _ _ rating_words(1) rating_words(3)]
      word_in_lower[OF assms _ _ rating_words(2) rating_words(4)]
    unfolding 1 by blast
  have 5: "is_ascii (raw_title r) \<and> rating (make_course db p r) = rating_marker \<longrightarrow>
      (\<exists>v. contains v (raw_title r) \<and> is_ascii v \<and>
           (differ_in_case_only db v (lit ''rating'') \<or>
            differ_in_case_only db v (lit ''stars'')))"
    using word_from_piece[OF assms] unfolding 1 by blast
  have 6: "rating (make_course db p
      \<lparr>raw_title = lit ''Python: 5-star rating'', raw_url = l, raw_content = c\<rparr>) =
     rating_marker"
    by (simp add: r rating_of_ascii[OF assms] is_ascii_def lit_def ascii_lower_def)
  have 7: "rating (make_course db p
      \<lparr>raw_title = lit ''TOP RATING'', raw_url = l, raw_content = c\<rparr>) = rating_marker"
    by (simp add: r rating_of_ascii[OF assms] is_ascii_def lit_def ascii_lower_def)
  have 8: "rating (make_course db p
      \<lparr>raw_title = lit ''Five Stars'', raw_url = l, raw_content = c\<rparr>) = rating_marker"
    by (simp add: r rating_of_ascii[OF assms] is_ascii_def lit_def ascii_lower_def)
  have 9: "rating (make_course db p
      \<lparr>raw_title = lit ''The Complete Guide'', raw_url = l, raw_content = c\<rparr>) = lit ''N/A''"
    by (simp add: r rating_of_ascii[OF assms] is_ascii_def lit_def ascii_lower_def)
  have 10: "rating (make_course db p
      \<lparr>raw_title = lit ''5-star course'', raw_url = l, raw_content = c\<rparr>) = lit ''N/A''"
    by (simp add: r rating_of_ascii[OF assms] is_ascii_def lit_def ascii_lower_def)
  from 1 2 3 4 5 6 7 8 9 10 show ?thesis by blast
qed

lemma sample_db_ascii: "ascii_db sample_db"
  by (simp add: ascii_db_def sample_db_def ascii_lower_def list_all_iff)

theorem C9_rating_witness:
  "ascii_db sample_db \<and>
   contains (lit ''RaTiNg'') (lit ''Top RaTiNg 2024'') \<and> is_ascii (lit ''RaTiNg'') \<and>
   differ_in_case_only sample_db (lit ''RaTiNg'') (lit ''rating'') \<and>
   rating (make_course sample_db (lit ''Udemy'')
      \<lparr>raw_title = lit ''Top RaTiNg 2024'', raw_url = lit ''https://example.org'',
       raw_content = None\<rparr>) = rating_marker"
proof -
  have a: "contains (lit ''RaTiNg'') (lit ''Top RaTiNg 2024'')" by (simp add: lit_def)
  have b: "is_ascii (lit ''RaTiNg'')" by (simp add: lit_def is_ascii_def)
  have c: "differ_in_case_only sample_db (lit ''RaTiNg'') (lit ''rating'')"
    by (simp add: differ_in_case_only_def same_letter_def sample_db_def lit_def)
  from C9_rating[OF sample_db_ascii, of "lit ''Udemy''"
      "\<lparr>raw_title = lit ''Top RaTiNg 2024'', raw_url = lit ''https://example.org'',
        raw_content = None\<rparr>"] a b c sample_db_ascii
  show ?thesis by auto
qed

subsection \<open>The loop over the platforms\<close>

text \<open>
  The loop only adds to the log of queries, and its first query is the one for the first
  platform; when that query raises the loop is left with nothing gathered beyond what it
  started with.
\<close>

lemma search_platforms_frame:
  "search_platforms db up t ps acc st = (r, st') \<Longrightarrow>
     search_cache st' = search_cache st \<and> data_cache st' = data_cache st \<and>
     clock st' = clock st \<and> messages st' = messages st \<and> prefix (queries st) (queries st')"
proof (induction ps arbitrary: acc st)
  case Nil
  then show ?case by auto
next
  case (Cons p ps)
  show ?case
  proof (cases "up (length (queries st)) (search_query p t)")
    case (Inl m)
    with Cons.prems show ?thesis by (auto simp: Let_def)
  next
    case (Inr results)
    with Cons.prems have
      "search_platforms db up t ps (acc @ map (make_course db p) results)
         (st\<lparr>queries := queries st @ [search_query p t]\<rparr>) = (r, st')"
      by (simp add: Let_def)
    from Cons.IH[OF this] show ?thesis by (auto dest: append_prefixD)
  qed
qed

lemma search_platforms_first_query:
  "prefix (queries st @ [search_query p t])
     (queries (snd (search_platforms db up t (p # ps) acc st)))"
proof (cases "up (length (queries st)) (search_query p t)")
  case (Inl m)
  then show ?thesis by (simp add: Let_def)
next
  case (Inr results)
  obtain r st' where e: "search_platforms db up t ps (acc @ map (make_course db p) results)
         (st\<lparr>queries := queries st @ [search_query p t]\<rparr>) = (r, st')"
    by (cases "search_platforms db up t ps (acc @ map (make_course db p) results)
         (st\<lparr>queries := queries st @ [search_query p t]\<rparr>)")
  from search_platforms_frame[OF e] have "prefix (queries st @ [search_query p t]) (queries st')"
    by simp
  with Inr e show ?thesis by (simp add: Let_def)
qed

lemma search_platforms_first_raises:
  "isl (up (length (queries st)) (search_query p t)) \<Longrightarrow>
   \<exists>m. search_platforms db up t (p # ps) acc st =
         (Inl (m, acc), st\<lparr>queries := queries st @ [search_query p t]\<rparr>)"
  by (cases "up (length (queries st)) (search_query p t)") (auto simp: Let_def)

subsection \<open>The two caches\<close>

text \<open>
  The function body at its three exits: served from the session cache, left by an
  exception, or run to the end.
\<close>

lemma body_hit:
  "search_cache st (cache_key db t) = Some v \<Longrightarrow> search_courses_body db up t st = (v, st)"
  by (simp add: search_courses_body_def)

lemma body_raises:
  assumes "search_cache st (cache_key db t) = None"
    and "search_platforms db up t platforms [] st = (Inl (m, g), st1)"
  shows "search_courses_body db up t st =
           ([], st1\<lparr>messages := messages st @ [Error (lit ''Error searching for courses: '' @ m)],
                    clock := clock st + 1\<rparr>)"
  using assms search_platforms_frame[OF assms(2)]
  by (simp add: search_courses_body_def sleep_def show_message_def)

lemma body_succeeds:
  assumes "search_cache st (cache_key db t) = None"
    and "search_platforms db up t platforms [] st = (Inr rs, st1)"
  shows "search_courses_body db up t st =
           (rs, st1\<lparr>search_cache := (search_cache st)(cache_key db t \<mapsto> rs)\<rparr>)"
  using assms search_platforms_frame[OF assms(2)]
  by (simp add: search_courses_body_def)

text \<open>The decorator: a fresh entry is returned as it is, otherwise the body runs and its value is stored.\<close>

lemma cache_data_hit:
  "in_window st t \<Longrightarrow> \<exists>e. data_cache st t = Some e \<and> search_courses db up t st = (snd e, st)"
  by (auto simp: in_window_def search_courses_def cache_data_def split: option.splits)

lemma cache_data_miss:
  "\<not> in_window st t \<Longrightarrow> search_courses_body db up t st = (v, st') \<Longrightarrow>
   search_courses db up t st = (v, st'\<lparr>data_cache := (data_cache st')(t \<mapsto> (clock st', v))\<rparr>)"
  by (auto simp: in_window_def search_courses_def cache_data_def split: option.splits)

text \<open>After any call the outer cache holds the value just returned.\<close>

lemma search_courses_stores:
  assumes "search_courses db up t st = (r1, st1)"
  shows "\<exists>ts. data_cache st1 t = Some (ts, r1)"
proof (cases "in_window st t")
  case True
  from cache_data_hit[OF True, of db up] assms show ?thesis
    by (cases "the (data_cache st t)") auto
next
  case False
  obtain v st' where b: "search_courses_body db up t st = (v, st')"
    by (cases "search_courses_body db up t st")
  from cache_data_miss[OF False b] assms show ?thesis by auto
qed

text \<open>After a call that ran the body the entry stays in its window for the next 3600 seconds.\<close>

lemma window_after_miss:
  assumes "\<not> in_window st t" and "search_courses db up t st = (r1, st1)" and "d < 3600"
  shows "in_window (advance d st1) t"
proof -
  obtain v st' where b: "search_courses_body db up t st = (v, st')"
    by (cases "search_courses_body db up t st")
  from cache_data_miss[OF assms(1) b] assms(2,3) show ?thesis
    by (auto simp: in_window_def advance_def fresh_def)
qed

text \<open>What a call does when one of its queries raises.\<close>

lemma query_raises_result:
  assumes "query_raises db up t st"
  shows "\<exists>m g st1. search_platforms db up t platforms [] st = (Inl (m, g), st1) \<and>
           search_courses db up t st =
             ([], st\<lparr>queries := queries st1,
                     messages := messages st @
                       [Error (lit ''Error searching for courses: '' @ m)],
                     clock := clock st + 1,
                     data_cache := (data_cache st)(t \<mapsto> (clock st + 1, []))\<rparr>)"
proof -
  from assms have w: "\<not> in_window st t" and c: "search_cache st (cache_key db t) = None"
    and i: "isl (fst (search_platforms db up t platforms [] st))"
    by (simp_all add: query_raises_def)
  obtain r st1 where e0: "search_platforms db up t platforms [] st = (r, st1)"
    by (cases "search_platforms db up t platforms [] st")
  with i obtain m g where e: "search_platforms db up t platforms [] st = (Inl (m, g), st1)"
    by (cases r) auto
  note fr = search_platforms_frame[OF e]
  have st1: "st1 = st\<lparr>queries := queries st1\<rparr>" using fr by simp
  have "search_courses db up t st =
          ([], st1\<lparr>messages := messages st @
                      [Error (lit ''Error searching for courses: '' @ m)],
                    clock := clock st + 1,
                    data_cache := (data_cache st)(t \<mapsto> (clock st + 1, []))\<rparr>)"
    using cache_data_miss[OF w body_raises[OF c e]] fr by simp
  also have "st1\<lparr>messages := messages st @
                      [Error (lit ''Error searching for courses: '' @ m)],
                    clock := clock st + 1,
                    data_cache := (data_cache st)(t \<mapsto> (clock st + 1, []))\<rparr> =
             st\<lparr>queries := queries st1,
                     messages := messages st @
                       [Error (lit ''Error searching for courses: '' @ m)],
                     clock := clock st + 1,
                     data_cache := (data_cache st)(t \<mapsto> (clock st + 1, []))\<rparr>"
    by (subst st1) simp
  finally show ?thesis using e by blast
qed

text \<open>
  A call that runs the body and meets no exception leaves its value in the session cache;
  a state with an entry under the key serves every spelling of the topic without a query.
\<close>

lemma search_leaves_entry:
  assumes "\<not> in_window st t" and "\<not> query_raises db up t st"
    and "search_courses db up t st = (r1, st1)"
  shows "search_cache st1 (cache_key db t) = Some r1"
proof (cases "search_cache st (cache_key db t)")
  case (Some c)
  from cache_data_miss[OF assms(1) body_hit[OF Some]] assms(3) Some show ?thesis by auto
next
  case None
  obtain r st' where e: "search_platforms db up t platforms [] st = (r, st')"
    by (cases "search_platforms db up t platforms [] st")
  with assms(1,2) None obtain rs where "r = Inr rs"
    by (cases r) (auto simp: query_raises_def)
  with e have e': "search_platforms db up t platforms [] st = (Inr rs, st')" by simp
  from cache_data_miss[OF assms(1) body_succeeds[OF None e']] assms(3) show ?thesis by auto
qed


text \<open>The examples, run step by step.\<close>

lemmas run_defs =
  lit_def new_session_def sql_basics_def steady_upstream_def limited_upstream_def
  recovering_upstream_def failing_upstream_def search_courses_def cache_data_def
  search_courses_body_def cache_key_def lower_def sample_db_def final_sigma_def platforms_def
  search_query_def make_course_def rating_of_def fresh_def in_window_def advance_def sleep_def
  show_message_def query_raises_def gathered_so_far_def Let_def

subsection \<open>Course search: errors\<close>

text \<open>
  C1, as the claim states it, fails. The provider answers the Udemy query with one result
  and raises on the Coursera query: one course has been gathered when the exception comes,
  and the call returns the empty list, not that course.
\<close>

theorem C1_counterexample:
  "query_raises sample_db limited_upstream (lit ''SQL'') new_session \<and>
   gathered_so_far (search_platforms sample_db limited_upstream (lit ''SQL'') platforms []
                      new_session) =
     [make_course sample_db (lit ''Udemy'') sql_basics] \<and>
   fst (search_courses sample_db limited_upstream (lit ''SQL'') new_session) = [] \<and>
   fst (search_courses sample_db limited_upstream (lit ''SQL'') new_session) \<noteq>
     gathered_so_far (search_platforms sample_db limited_upstream (lit ''SQL'') platforms []
                        new_session)"
  by (simp add: run_defs)

text \<open>
  C1, amended. When an upstream query raises during a call of \<^verbatim>\<open>search_courses\<close> that
  gets past both caches, the exception is caught: the call returns the empty list,
  whatever had been gathered from the platforms queried before, after showing the error
  message and sleeping one second. The session cache is as before, and the decorator
  stores the empty list for the topic.
\<close>

theorem C1_error_gives_empty:
  assumes "query_raises db up t st"
  shows "\<exists>m g st1. search_platforms db up t platforms [] st = (Inl (m, g), st1) \<and>
           search_courses db up t st =
             ([], st\<lparr>queries := queries st1,
                     messages := messages st @
                       [Error (lit ''Error searching for courses: '' @ m)],
                     clock := clock st + 1,
                     data_cache := (data_cache st)(t \<mapsto> (clock st + 1, []))\<rparr>)"
  using assms by (rule query_raises_result)

theorem C1_error_gives_empty_witness:
  "query_raises sample_db limited_upstream (lit ''SQL'') new_session \<and>
   fst (search_courses sample_db limited_upstream (lit ''SQL'') new_session) = [] \<and>
   clock (snd (search_courses sample_db limited_upstream (lit ''SQL'') new_session)) = 1"
proof -
  have h: "query_raises sample_db limited_upstream (lit ''SQL'') new_session"
    by (simp add: run_defs)
  from C1_error_gives_empty[OF h] show ?thesis using h by (auto simp: new_session_def)
qed

text \<open>
  C10. When an upstream query raises during a run of the function body, the session cache
  is left as it was, with no entry under the topic's key; so a later run of the body for
  the same topic, the entry of the key being still as this run left it, sends the first
  platform's query upstream again.
\<close>

theorem C10_failure_not_cached:
  assumes "search_cache st (cache_key db t) = None"
    and "isl (fst (search_platforms db up t platforms [] st))"
  shows "search_cache (snd (search_courses_body db up t st)) = search_cache st \<and>
         (\<forall>st2 up'. search_cache st2 (cache_key db t) =
                       search_cache (snd (search_courses_body db up t st)) (cache_key db t) \<longrightarrow>
            prefix (queries st2 @ [search_query (lit ''Udemy'') t])
              (queries (snd (search_courses_body db up' t st2))))"
proof -
  obtain r st1 where e0: "search_platforms db up t platforms [] st = (r, st1)"
    by (cases "search_platforms db up t platforms [] st")
  with assms(2) obtain m g where e: "search_platforms db up t platforms [] st = (Inl (m, g), st1)"
    by (cases r) auto
  have u: "search_cache (snd (search_courses_body db up t st)) = search_cache st"
    using body_raises[OF assms(1) e] search_platforms_frame[OF e] by simp
  have "prefix (queries st2 @ [search_query (lit ''Udemy'') t])
          (queries (snd (search_courses_body db up' t st2)))"
    if n: "search_cache st2 (cache_key db t) = None" for st2 up'
  proof -
    obtain r2 st3 where e2: "search_platforms db up' t platforms [] st2 = (r2, st3)"
      by (cases "search_platforms db up' t platforms [] st2")
    have p: "prefix (queries st2 @ [search_query (lit ''Udemy'') t]) (queries st3)"
      using search_platforms_first_query[of st2 "lit ''Udemy''" t db up'
          "[lit ''Coursera'', lit ''YouTube'']" "[]"] e2
      by (simp add: platforms_def)
    show ?thesis
    proof (cases r2)
      case (Inl mg)
      then obtain m2 g2 where "r2 = Inl (m2, g2)" by (cases mg) auto
      with e2 body_raises[OF n] p show ?thesis by simp
    next
      case (Inr rs)
      with e2 body_succeeds[OF n] p show ?thesis by simp
    qed
  qed
  with u assms(1) show ?thesis by simp
qed

theorem C10_failure_not_cached_witness:
  "search_cache new_session (cache_key sample_db (lit ''SQL'')) = None \<and>
   isl (fst (search_platforms sample_db limited_upstream (lit ''SQL'') platforms [] new_session)) \<and>
   search_cache
       (advance 5 (snd (search_courses_body sample_db limited_upstream (lit ''SQL'') new_session)))
       (cache_key sample_db (lit ''SQL'')) =
     search_cache (snd (search_courses_body sample_db limited_upstream (lit ''SQL'') new_session))
       (cache_key sample_db (lit ''SQL'')) \<and>
   prefix
     (queries
        (advance 5 (snd (search_courses_body sample_db limited_upstream (lit ''SQL'') new_session)))
      @ [search_query (lit ''Udemy'') (lit ''SQL'')])
     (queries (snd (search_courses_body sample_db steady_upstream (lit ''SQL'')
        (advance 5
           (snd (search_courses_body sample_db limited_upstream (lit ''SQL'') new_session))))))"
proof -
  have a: "search_cache new_session (cache_key sample_db (lit ''SQL'')) = None"
    by (simp add: new_session_def)
  have b: "isl (fst (search_platforms sample_db limited_upstream (lit ''SQL'') platforms []
                       new_session))"
    by (simp add: run_defs)
  have c: "search_cache
       (advance 5 (snd (search_courses_body sample_db limited_upstream (lit ''SQL'') new_session)))
       (cache_key sample_db (lit ''SQL'')) =
     search_cache (snd (search_courses_body sample_db limited_upstream (lit ''SQL'') new_session))
       (cache_key sample_db (lit ''SQL''))"
    by (simp add: advance_def)
  from C10_failure_not_cached[OF a b] c show ?thesis using a b by blast
qed

subsection \<open>Course search: cache hits\<close>

text \<open>
  C4. Two calls with the same topic, the second one inside the one-hour window of the
  topic's entry in the outer cache: the second call changes nothing in the state, so it
  sends no query upstream, and it returns the value of the first. By
  \<open>window_after_miss\<close> the window holds for 3600 seconds after a first call that ran
  the body.
\<close>

theorem C4_second_call_cached:
  assumes "search_courses db up t st = (r1, st1)"
    and "in_window (advance d st1) t"
  shows "search_courses db up' t (advance d st1) = (r1, advance d st1)"
proof -
  from search_courses_stores[OF assms(1)] obtain ts where "data_cache st1 t = Some (ts, r1)"
    by blast
  then have "data_cache (advance d st1) t = Some (ts, r1)" by (simp add: advance_def)
  with cache_data_hit[OF assms(2), of db up'] show ?thesis by auto
qed

theorem C4_second_call_cached_witness:
  "in_window (advance 3599 (snd (search_courses sample_db steady_upstream (lit ''SQL'')
                                   new_session))) (lit ''SQL'') \<and>
   search_courses sample_db failing_upstream (lit ''SQL'')
       (advance 3599 (snd (search_courses sample_db steady_upstream (lit ''SQL'') new_session))) =
     (fst (search_courses sample_db steady_upstream (lit ''SQL'') new_session),
      advance 3599 (snd (search_courses sample_db steady_upstream (lit ''SQL'') new_session)))"
proof -
  have h: "in_window (advance 3599 (snd (search_courses sample_db steady_upstream (lit ''SQL'')
                                   new_session))) (lit ''SQL'')"
    by (simp add: run_defs)
  have f: "search_courses sample_db steady_upstream (lit ''SQL'') new_session =
             (fst (search_courses sample_db steady_upstream (lit ''SQL'') new_session),
              snd (search_courses sample_db steady_upstream (lit ''SQL'') new_session))"
    by simp
  show ?thesis using h C4_second_call_cached[OF f h, of failing_upstream] by simp
qed




subsection \<open>The generation cycle\<close>

text \<open>
  C2. When the LLM call raises, the cycle ends with that error as an
  \<^verbatim>\<open>UpstreamError\<close>: there is no plan, the only change of the state is the error message
  of the wrapper, so no query has gone to the search provider and both caches are as
  before; \<^verbatim>\<open>main\<close> then shows the error a second time and has nothing to render.
\<close>

theorem C2_llm_failure:
  assumes "ask (groq_request (build_prompt req)) = Inl m"
  shows "generate_plan db ask up req st =
           (Inl (UpstreamError m),
            show_message (Error (lit ''Error calling Groq API: '' @ m)) st) \<and>
         queries (snd (generate_plan db ask up req st)) = queries st \<and>
         search_cache (snd (generate_plan db ask up req st)) = search_cache st \<and>
         data_cache (snd (generate_plan db ask up req st)) = data_cache st \<and>
         main db ask up req True st =
           (if topic req = [] then (None, st)
            else (None, st\<lparr>messages := messages st @
                    [Error (lit ''Error calling Groq API: '' @ m),
                     Error (lit ''Error creating learning plan: '' @ m)]\<rparr>))"
  using assms
  by (simp add: generate_plan_def GroqLLM_call_def main_def show_message_def)

theorem C2_llm_failure_witness:
  "failing_llm (groq_request (build_prompt sql_request)) = Inl (lit ''quota exceeded'') \<and>
   fst (generate_plan sample_db failing_llm steady_upstream sql_request new_session) =
     Inl (UpstreamError (lit ''quota exceeded'')) \<and>
   queries (snd (generate_plan sample_db failing_llm steady_upstream sql_request new_session)) = []"
proof -
  have h: "failing_llm (groq_request (build_prompt sql_request)) = Inl (lit ''quota exceeded'')"
    by (simp add: failing_llm_def)
  from h C2_llm_failure[where ask = failing_llm and req = sql_request
      and m = "lit ''quota exceeded''" and up = steady_upstream and st = new_session
      and db = sample_db]
  show ?thesis by (simp add: new_session_def show_message_def)
qed

text \<open>
  C3. When the LLM call succeeds and the search provider raises for every platform, the
  cycle returns a plan and no error: its weeks are what the parser makes of the LLM's
  text, and its course list is empty whenever the search reaches the provider, that is
  when neither cache holds the topic.
\<close>

theorem C3_search_failure_isolated:
  assumes "ask (groq_request (build_prompt req)) = Inr text"
    and "\<forall>p\<in>set platforms. \<forall>n. isl (up n (search_query p (topic req)))"
  shows "\<exists>ws cs st'. week_sections text = Inr ws \<and>
           generate_plan db ask up req st = (Inr \<lparr>weeks = ws, courses = cs\<rparr>, st') \<and>
           (\<not> in_window st (topic req) \<and> search_cache st (cache_key db (topic req)) = None
              \<longrightarrow> cs = [])"
proof -
  obtain ws where ws: "week_sections text = Inr ws" using week_sections_Inr by blast
  obtain cs st2 where s: "search_courses db up (topic req) st = (cs, st2)"
    by (cases "search_courses db up (topic req) st")
  have g: "\<exists>st'. generate_plan db ask up req st = (Inr \<lparr>weeks = ws, courses = cs\<rparr>, st')"
    using assms(1) ws s by (simp add: generate_plan_def GroqLLM_call_def)
  have "cs = []"
    if m: "\<not> in_window st (topic req) \<and> search_cache st (cache_key db (topic req)) = None"
  proof -
    from assms(2) have "isl (up (length (queries st)) (search_query (lit ''Udemy'') (topic req)))"
      by (simp add: platforms_def)
    with search_platforms_first_raises[where up = up and st = st and p = "lit ''Udemy''"
        and t = "topic req" and ps = "[lit ''Coursera'', lit ''YouTube'']" and acc = "[]"
        and db = db]
    have "isl (fst (search_platforms db up (topic req) platforms [] st))"
      by (auto simp: platforms_def)
    with m have "query_raises db up (topic req) st" by (simp add: query_raises_def)
    from query_raises_result[OF this] s show ?thesis by auto
  qed
  with ws g show ?thesis by blast
qed

theorem C3_search_failure_isolated_witness:
  "steady_llm (groq_request (build_prompt sql_request)) =
     Inr (lit ''Week 1: Goal A\<newline>Week 2: Goal B'') \<and>
   (\<forall>p n. isl (failing_upstream n (search_query p (topic sql_request)))) \<and>
   \<not> in_window new_session (topic sql_request) \<and>
   search_cache new_session (cache_key sample_db (topic sql_request)) = None \<and>
   fst (generate_plan sample_db steady_llm failing_upstream sql_request new_session) =
     Inr \<lparr>weeks = [\<lparr>week_num = lit ''1'', week_content = lit ''Goal A''\<rparr>,
                   \<lparr>week_num = lit ''2'', week_content = lit ''Goal B''\<rparr>],
          courses = []\<rparr>"
proof -
  have a: "steady_llm (groq_request (build_prompt sql_request)) =
             Inr (lit ''Week 1: Goal A\<newline>Week 2: Goal B'')"
    by (simp add: steady_llm_def)
  have b': "\<forall>p n. isl (failing_upstream n (search_query p (topic sql_request)))"
    by (simp add: failing_upstream_def)
  then have b: "\<forall>p\<in>set platforms. \<forall>n. isl (failing_upstream n (search_query p (topic sql_request)))"
    by blast
  have c: "\<not> in_window new_session (topic sql_request)"
    by (simp add: in_window_def new_session_def)
  have d: "search_cache new_session (cache_key sample_db (topic sql_request)) = None"
    by (simp add: new_session_def)
  have e: "week_sections (lit ''Week 1: Goal A\<newline>Week 2: Goal B'') =
     Inr [\<lparr>week_num = lit ''1'', week_content = lit ''Goal A''\<rparr>,
          \<lparr>week_num = lit ''2'', week_content = lit ''Goal B''\<rparr>]"
    by (simp add: week_sections_def split_def lit_def parse_section_def first_def strip_def
        is_space_def)
  from C3_search_failure_isolated[where ask = steady_llm and req = sql_request
      and up = failing_upstream and st = new_session and db = sample_db, OF a b] c d e
  show ?thesis using a b' by auto
qed

end
